theory Spec2Isabelle
  imports Main "HOL-Library.Word"
begin

section \<open>The governance ledger: data model\<close>

text \<open>
  The contract \<open>CorporateGovernanceUltimate\<close> is given in the tutorial
  (\<open>HELLO_FHEVM_TUTORIAL.md\<close>, chapter 4) as Solidity \<open>^0.8.20\<close>: its integers are
  fixed-width and every \<open>+\<close> and \<open>*\<close> outside an \<open>unchecked\<close> block reverts with
  \<open>Panic(0x11)\<close> on overflow. Integers are words of the declared width; the overflow
  check of each arithmetic operation is written out where the operation occurs.
\<close>

type_synonym address = "160 word"
type_synonym uint8 = "8 word"
type_synonym uint32 = "32 word"
type_synonym uint256 = "256 word"

record Shareholder =
  sh_active :: bool
  shares :: uint32
  sh_name :: string

record Proposal =
  pType :: uint8
  title :: string
  proposer :: address
  deadline :: uint256
  active :: bool
  forVotes :: uint32
  againstVotes :: uint32
  threshold :: uint32

text \<open>
  The storage of the contract, as the four function bodies of the tutorial use it:
  \<open>initialized\<close>, \<open>companyName\<close>, \<open>totalShares\<close>, the mapping \<open>shareholders\<close>,
  the array \<open>proposals\<close> and the nested mapping \<open>voted\<close>. A Solidity mapping is
  total (an absent key reads as the zero value), hence a function.
\<close>

record Governance =
  initialized :: bool
  companyName :: string
  totalShares :: uint256
  shareholders :: "address \<Rightarrow> Shareholder"
  proposals :: "Proposal list"
  voted :: "uint256 \<Rightarrow> address \<Rightarrow> bool"

text \<open>
  A failed \<open>require\<close> aborts the call with its reason string; an arithmetic overflow
  aborts it with a panic code; a modifier that rejects the caller aborts it as well.
\<close>

datatype error = Revert string | Panic nat | Unauthorized

text \<open>
  The bodies of the modifiers \<open>onlyOwner\<close> (inherited from
  OpenZeppelin's \<open>Ownable\<close>), \<open>onlyBoard\<close> and \<open>onlySharehol\<close> are not part of the
  sources. The spec calls the entry points owner-, board- and shareholder-restricted and
  says that an unauthorized caller aborts the whole call. Each modifier is taken as a
  parameter: a test on the storage and the caller that is evaluated before the body and
  aborts the call when it fails. Every theorem below holds for all such tests.
\<close>

record modifiers =
  onlyOwner :: "Governance \<Rightarrow> address \<Rightarrow> bool"
  onlyBoard :: "Governance \<Rightarrow> address \<Rightarrow> bool"
  onlySharehol :: "Governance \<Rightarrow> address \<Rightarrow> bool"

text \<open>The storage right after deployment: every slot holds its zero value.\<close>

definition deployed :: Governance where
  "deployed =
     \<lparr>initialized = False, companyName = [], totalShares = 0,
      shareholders = (\<lambda>_. \<lparr>sh_active = False, shares = 0, sh_name = []\<rparr>),
      proposals = [],
      voted = (\<lambda>_ _. False)\<rparr>"

section \<open>The entry points\<close>

definition initCompany ::
  "modifiers \<Rightarrow> Governance \<Rightarrow> address \<Rightarrow> string \<Rightarrow> uint256 \<Rightarrow> error + Governance" where
  "initCompany m s msg_sender p_name p_shares =
     (if \<not> onlyOwner m s msg_sender then Inl Unauthorized
      else if initialized s then Inl (Revert ''Already initialized'')
      else Inr (s\<lparr>companyName := p_name, totalShares := p_shares, initialized := True\<rparr>))"

definition addShareholder ::
  "modifiers \<Rightarrow> Governance \<Rightarrow> address \<Rightarrow> address \<Rightarrow> uint32 \<Rightarrow> string \<Rightarrow> error + Governance" where
  "addShareholder m s msg_sender p_addr p_shares p_name =
     (if \<not> onlyBoard m s msg_sender then Inl Unauthorized
      else Inr (s\<lparr>shareholders := (shareholders s)
                  (p_addr := \<lparr>sh_active = True, shares = p_shares, sh_name = p_name\<rparr>)\<rparr>))"

text \<open>
  Parameter names drop the leading underscore of the source (\<open>_id\<close> is \<open>p_id\<close>).
  \<open>createProposal\<close> returns the new id together with the new storage. \<open>1 days\<close> is
  86400 seconds. The three checked operations are \<open>proposals.length + 1\<close>,
  \<open>_days * 1 days\<close> and \<open>block.timestamp + ...\<close>.
\<close>

definition createProposal ::
  "modifiers \<Rightarrow> Governance \<Rightarrow> address \<Rightarrow> uint256 \<Rightarrow> uint8 \<Rightarrow> string \<Rightarrow> uint256
     \<Rightarrow> error + (Governance \<times> uint256)" where
  "createProposal m s msg_sender block_timestamp p_type p_title p_days =
     (if \<not> onlyBoard m s msg_sender then Inl Unauthorized
      else if (2::nat) ^ 256 \<le> length (proposals s) + 1 then Inl (Panic 17)
      else if (2::nat) ^ 256 \<le> unat p_days * 86400 then Inl (Panic 17)
      else if (2::nat) ^ 256 \<le> unat block_timestamp + unat (p_days * 86400) then Inl (Panic 17)
      else
        let new_id = (of_nat (length (proposals s)) + 1 :: uint256);
            thr = (if p_type = 2 then 75 else if p_type = 1 then 60 else 50)
        in Inr (s\<lparr>proposals := proposals s @
                   [\<lparr>pType = p_type, title = p_title, proposer = msg_sender,
                     deadline = block_timestamp + p_days * 86400,
                     active = True, forVotes = 0, againstVotes = 0,
                     threshold = thr\<rparr>]\<rparr>, new_id))"

text \<open>
  \<open>vote\<close>: the two \<open>require\<close>s on the id and on \<open>voted\<close>, the \<open>require\<close> on the
  voting window, the write to \<open>voted\<close>, and the checked \<open>+=\<close> on the tally that the
  choice selects. A choice other than 1 and 2 falls through both branches.
\<close>

definition vote ::
  "modifiers \<Rightarrow> Governance \<Rightarrow> address \<Rightarrow> uint256 \<Rightarrow> uint256 \<Rightarrow> uint8 \<Rightarrow> error + Governance" where
  "vote m s msg_sender block_timestamp p_id p_choice =
     (if \<not> onlySharehol m s msg_sender then Inl Unauthorized
      else if \<not> (0 < p_id \<and> unat p_id \<le> length (proposals s))
        then Inl (Revert ''Invalid proposal ID'')
      else if voted s p_id msg_sender then Inl (Revert ''Already voted on this proposal'')
      else
        let p = proposals s ! (unat p_id - 1) in
        if \<not> (active p \<and> block_timestamp \<le> deadline p) then Inl (Revert ''Voting period ended'')
        else
          let s1 = s\<lparr>voted := (voted s)(p_id := (voted s p_id)(msg_sender := True))\<rparr>;
              sh = shares (shareholders s msg_sender)
          in
          if p_choice = 1 then
            (if (2::nat) ^ 32 \<le> unat (forVotes p) + unat sh then Inl (Panic 17)
             else Inr (s1\<lparr>proposals := (proposals s)
                          [unat p_id - 1 := p\<lparr>forVotes := forVotes p + sh\<rparr>]\<rparr>))
          else if p_choice = 2 then
            (if (2::nat) ^ 32 \<le> unat (againstVotes p) + unat sh then Inl (Panic 17)
             else Inr (s1\<lparr>proposals := (proposals s)
                          [unat p_id - 1 := p\<lparr>againstVotes := againstVotes p + sh\<rparr>]\<rparr>))
          else Inr s1)"

section \<open>Transactions and runs\<close>

text \<open>
  A transaction is a caller, a block timestamp and one call of an entry point. A call
  that aborts leaves the storage as it was (the ledger rolls the transaction back); a
  run applies a list of transactions in order.
\<close>

datatype call =
    InitCompany string uint256
  | AddShareholder address uint32 string
  | CreateProposal uint8 string uint256
  | Vote uint256 uint8

type_synonym tx = "address \<times> uint256 \<times> call"

fun exec :: "modifiers \<Rightarrow> Governance \<Rightarrow> tx \<Rightarrow> error + (Governance \<times> uint256 option)" where
  "exec m s (a, t, InitCompany n sh) = map_sum id (\<lambda>s'. (s', None)) (initCompany m s a n sh)"
| "exec m s (a, t, AddShareholder b sh n) =
     map_sum id (\<lambda>s'. (s', None)) (addShareholder m s a b sh n)"
| "exec m s (a, t, CreateProposal ty ti d) =
     map_sum id (\<lambda>(s', i). (s', Some i)) (createProposal m s a t ty ti d)"
| "exec m s (a, t, Vote i c) = map_sum id (\<lambda>s'. (s', None)) (vote m s a t i c)"

definition step :: "modifiers \<Rightarrow> Governance \<Rightarrow> tx \<Rightarrow> Governance" where
  "step m s x = (case exec m s x of Inl e \<Rightarrow> s | Inr (s', r) \<Rightarrow> s')"

definition run :: "modifiers \<Rightarrow> Governance \<Rightarrow> tx list \<Rightarrow> Governance" where
  "run m s xs = foldl (step m) s xs"

text \<open>The value a successful call returns, if it returns one (the id of \<open>createProposal\<close>).\<close>

definition returned :: "modifiers \<Rightarrow> Governance \<Rightarrow> tx \<Rightarrow> uint256 option" where
  "returned m s x = (case exec m s x of Inl e \<Rightarrow> None | Inr (s', r) \<Rightarrow> r)"

text \<open>The ids returned by the successful \<open>createProposal\<close> calls of a run, in order.\<close>

fun created :: "modifiers \<Rightarrow> Governance \<Rightarrow> tx list \<Rightarrow> uint256 list" where
  "created m s [] = []"
| "created m s (x # xs) =
     (case returned m s x of None \<Rightarrow> [] | Some i \<Rightarrow> [i]) @ created m (step m s x) xs"

text \<open>
  The struct that \<open>createProposal\<close> pushes, as a function of the call: used to state
  what the new element of \<open>proposals\<close> is.
\<close>

definition new_proposal :: "address \<Rightarrow> uint256 \<Rightarrow> uint8 \<Rightarrow> string \<Rightarrow> uint256 \<Rightarrow> Proposal" where
  "new_proposal a t ty ti d =
     \<lparr>pType = ty, title = ti, proposer = a, deadline = t + d * 86400, active = True,
      forVotes = 0, againstVotes = 0,
      threshold = (if ty = 2 then 75 else if ty = 1 then 60 else 50)\<rparr>"

section \<open>The record of the votes cast\<close>

text \<open>
  The contract keeps the tallies and the flag \<open>voted\<close>, not the votes. To speak about
  the share counts at the time of voting, a run is given its list of ballots: one entry
  for each successful \<open>vote\<close> call, holding the proposal id, the caller, the caller's
  share count in the storage the call started from, and the choice.
\<close>

type_synonym ballot = "uint256 \<times> address \<times> uint32 \<times> uint8"

fun ballot_of :: "modifiers \<Rightarrow> Governance \<Rightarrow> tx \<Rightarrow> ballot list" where
  "ballot_of m s (a, t, Vote i c) =
     (if isl (vote m s a t i c) then [] else [(i, a, shares (shareholders s a), c)])"
| "ballot_of m s (a, t, InitCompany n sh) = []"
| "ballot_of m s (a, t, AddShareholder b sh n) = []"
| "ballot_of m s (a, t, CreateProposal ty ti d) = []"

fun ballots :: "modifiers \<Rightarrow> Governance \<Rightarrow> tx list \<Rightarrow> ballot list" where
  "ballots m s [] = []"
| "ballots m s (x # xs) = ballot_of m s x @ ballots m (step m s x) xs"

text \<open>The callers of the ballots on proposal \<open>i\<close>, in order.\<close>

definition voters :: "ballot list \<Rightarrow> uint256 \<Rightarrow> address list" where
  "voters bs i = map (\<lambda>(j, a, w, c). a) (filter (\<lambda>(j, a, w, c). j = i) bs)"

text \<open>The sum of the share counts of the ballots on proposal \<open>i\<close> whose choice satisfies \<open>P\<close>.\<close>

definition shares_cast :: "(uint8 \<Rightarrow> bool) \<Rightarrow> ballot list \<Rightarrow> uint256 \<Rightarrow> nat" where
  "shares_cast P bs i =
     sum_list (map (\<lambda>(j, a, w, c). unat w) (filter (\<lambda>(j, a, w, c). j = i \<and> P c) bs))"

text \<open>
  The relation between the storage and the ballots that every run keeps: the two
  tallies of a proposal are the share counts of its ballots for and against, a proposal
  that does not exist has no ballot, \<open>voted\<close> holds exactly for the callers of the
  ballots, and no caller has two ballots on one proposal.
\<close>

definition ledger_inv :: "Governance \<Rightarrow> ballot list \<Rightarrow> bool" where
  "ledger_inv s bs \<longleftrightarrow>
     (\<forall>i. (0 < i \<and> unat i \<le> length (proposals s) \<longrightarrow>
             unat (forVotes (proposals s ! (unat i - 1))) = shares_cast (\<lambda>c. c = 1) bs i
           \<and> unat (againstVotes (proposals s ! (unat i - 1))) = shares_cast (\<lambda>c. c = 2) bs i)
        \<and> (\<not> (0 < i \<and> unat i \<le> length (proposals s)) \<longrightarrow> voters bs i = [])
        \<and> (\<forall>a. voted s i a \<longleftrightarrow> a \<in> set (voters bs i))
        \<and> distinct (voters bs i))"

section \<open>Reading the result\<close>

text \<open>
  Modelled from the spec: the for-percentage that \<open>getResults\<close> compares with the
  threshold is computed in the contract, whose body of \<open>getResults\<close> is not part of
  the sources. The scenario of the tutorial (chapter 7) calls 50000 votes for and 30000
  against ``62.5% approval'': the percentage is taken of the votes for and against, not
  of all shares. The spec does not say what the percentage of no votes is; it is 0 here.
\<close>

definition for_percentage :: "Proposal \<Rightarrow> nat" where
  "for_percentage p =
     (if unat (forVotes p) + unat (againstVotes p) = 0 then 0
      else unat (forVotes p) * 100 div (unat (forVotes p) + unat (againstVotes p)))"

text \<open>
  Modelled from the spec: the body of \<open>getResults\<close> is not part of the sources (the
  tutorial lists its signature and calls it in its test scenario). The spec gives it the
  type \<open>getResults(uint256) \<rightarrow> (uint32, uint32, bool)\<close> and says that it ``reads final
  tallies and compares the for-percentage against the stored threshold to determine
  pass/fail'', the threshold being the ``minimum for-percentage required for a proposal
  to pass'', and that an out-of-range id aborts the call.
\<close>

definition getResults :: "Governance \<Rightarrow> uint256 \<Rightarrow> error + (uint32 \<times> uint32 \<times> bool)" where
  "getResults s p_id =
     (if \<not> (0 < p_id \<and> unat p_id \<le> length (proposals s))
        then Inl (Revert ''Invalid proposal ID'')
      else
        let p = proposals s ! (unat p_id - 1)
        in Inr (forVotes p, againstVotes p, unat (threshold p) \<le> for_percentage p))"

section \<open>The voting page of the front-end\<close>

text \<open>
  \<open>handleVote\<close> of \<open>VotingPage\<close> is an asynchronous handler whose statements act on
  the page's state hooks, on the toast library, on a timer and on the console. Each such
  action is an effect; the handler is the list of the effects it performs, in order. The
  constructor \<open>ContractVote\<close> is the call \<open>contract.contract.vote(proposalId, voteChoice)\<close>,
  which the source holds in a comment only.

  \<open>VoteChoice\<close> and \<open>VOTE_CHOICE_LABELS\<close> come from \<open>@/types/web3\<close>, which is not
  part of the sources: the labels are a parameter, and the three members of the enum are
  the ones the page uses.
\<close>

datatype VoteChoice = FOR | AGAINST | ABSTAIN

datatype effect =
    ToastError string
  | ToastLoading string
  | ToastSuccess string
  | Timeout nat
  | ConsoleError string
  | SetVotingInProgress "nat option"
  | SetShowVoteModal bool
  | SetSelectedProposal "nat option"
  | ContractVote nat VoteChoice

text \<open>The statements of the \<open>try\<close> block, in order.\<close>

definition try_block :: "(VoteChoice \<Rightarrow> string) \<Rightarrow> VoteChoice \<Rightarrow> effect list" where
  "try_block VOTE_CHOICE_LABELS voteChoice =
     [ToastLoading (''Submitting '' @ VOTE_CHOICE_LABELS voteChoice @ '' vote...''),
      Timeout 2000,
      ToastSuccess (''Vote submitted successfully! ('' @ VOTE_CHOICE_LABELS voteChoice @ '')''),
      SetShowVoteModal False,
      SetSelectedProposal None]"

text \<open>
  An exception inside the \<open>try\<close> block is a value: \<open>thrown = Some (k, msg)\<close> says that
  statement \<open>k\<close> of the block raised an error with message \<open>msg\<close>, so that the
  statements before it ran and the \<open>catch\<close> block follows; \<open>None\<close> says that the block
  ran to its end. The \<open>finally\<close> block runs in both cases. An empty message is
  replaced by \<open>Unknown error\<close>, as \<open>error.message || 'Unknown error'\<close> does.
\<close>

definition handleVote ::
  "bool \<Rightarrow> bool \<Rightarrow> (VoteChoice \<Rightarrow> string) \<Rightarrow> (nat \<times> string) option \<Rightarrow> nat \<Rightarrow> VoteChoice
     \<Rightarrow> effect list" where
  "handleVote wallet_isConnected contract_contract VOTE_CHOICE_LABELS thrown proposalId voteChoice =
     (if \<not> wallet_isConnected \<or> \<not> contract_contract
        then [ToastError ''Please connect your wallet and ensure contract is loaded'']
      else
        [SetVotingInProgress (Some proposalId)] @
        (case thrown of
           None \<Rightarrow> try_block VOTE_CHOICE_LABELS voteChoice
         | Some (k, msg) \<Rightarrow>
             take k (try_block VOTE_CHOICE_LABELS voteChoice) @
             [ConsoleError ''Voting error:'',
              ToastError (''Voting failed: '' @ (if msg = [] then ''Unknown error'' else msg))]) @
        [SetVotingInProgress None])"

text \<open>
  What a list of effects does to the ledger: only \<open>ContractVote\<close> reaches the contract,
  as a \<open>vote\<close> transaction of the connected account; every other effect stays in the
  browser. The choice is sent as the number the caller of the page maps it to.
\<close>

fun ledger_after ::
  "modifiers \<Rightarrow> address \<Rightarrow> uint256 \<Rightarrow> (VoteChoice \<Rightarrow> uint8) \<Rightarrow> effect list \<Rightarrow> Governance
     \<Rightarrow> Governance" where
  "ledger_after m a t enc [] g = g"
| "ledger_after m a t enc (ContractVote i c # es) g =
     ledger_after m a t enc es (step m g (a, t, Vote (of_nat i) (enc c)))"
| "ledger_after m a t enc (e # es) g = ledger_after m a t enc es g"

fun is_contract_call :: "effect \<Rightarrow> bool" where
  "is_contract_call (ContractVote i c) = True"
| "is_contract_call e = False"

fun is_toast_or_wait :: "effect \<Rightarrow> bool" where
  "is_toast_or_wait (ToastError s) = True"
| "is_toast_or_wait (ToastLoading s) = True"
| "is_toast_or_wait (ToastSuccess s) = True"
| "is_toast_or_wait (Timeout n) = True"
| "is_toast_or_wait e = False"

fun is_page_state :: "effect \<Rightarrow> bool" where
  "is_page_state (SetVotingInProgress v) = True"
| "is_page_state (SetShowVoteModal b) = True"
| "is_page_state (SetSelectedProposal p) = True"
| "is_page_state (ConsoleError s) = True"
| "is_page_state e = False"

section \<open>Concrete inputs\<close>

text \<open>
  One choice of modifiers, used where a theorem is applied to a concrete run: account 1
  is the owner and the only board member, and the shareholders are the accounts whose
  entry is active.
\<close>

definition example_mods :: modifiers where
  "example_mods =
     \<lparr>onlyOwner = (\<lambda>s a. a = 1), onlyBoard = (\<lambda>s a. a = 1),
      onlySharehol = (\<lambda>s a. sh_active (shareholders s a))\<rparr>"

text \<open>
  The set-up of the tutorial's test scenario (chapter 7): the company, three shareholders
  with 50000, 30000 and 20000 shares (accounts 10, 11 and 12), and one proposal of type 0,
  created at time 1000 and open for 7 days.
\<close>

definition setup_txs :: "tx list" where
  "setup_txs =
     [(1, 1000, InitCompany ''Acme Corporation'' 1000000),
      (1, 1000, AddShareholder 10 50000 ''Alice Johnson''),
      (1, 1000, AddShareholder 11 30000 ''Bob Smith''),
      (1, 1000, AddShareholder 12 20000 ''Carol Williams''),
      (1, 1000, CreateProposal 0 ''Q4 2024 Budget Approval'' 7)]"

definition example_state :: Governance where
  "example_state =
     \<lparr>initialized = True, companyName = ''Acme Corporation'', totalShares = 1000000,
      shareholders = (\<lambda>a.
         if a = 10 then \<lparr>sh_active = True, shares = 50000, sh_name = ''Alice Johnson''\<rparr>
         else if a = 11 then \<lparr>sh_active = True, shares = 30000, sh_name = ''Bob Smith''\<rparr>
         else if a = 12 then \<lparr>sh_active = True, shares = 20000, sh_name = ''Carol Williams''\<rparr>
         else \<lparr>sh_active = False, shares = 0, sh_name = []\<rparr>),
      proposals = [new_proposal 1 1000 0 ''Q4 2024 Budget Approval'' 7],
      voted = (\<lambda>_ _. False)\<rparr>"

text \<open>The three votes of the scenario: for, against and abstain.\<close>

definition scenario_votes :: "tx list" where
  "scenario_votes = [(10, 2000, Vote 1 1), (11, 3000, Vote 1 2), (12, 4000, Vote 1 0)]"

text \<open>
  Labels for the three choices and the numbers that the contract reads them as, for a
  concrete call of the handler.
\<close>

definition example_labels :: "VoteChoice \<Rightarrow> string" where
  "example_labels c = (case c of FOR \<Rightarrow> ''For'' | AGAINST \<Rightarrow> ''Against'' | ABSTAIN \<Rightarrow> ''Abstain'')"

definition example_enc :: "VoteChoice \<Rightarrow> uint8" where
  "example_enc c = (case c of FOR \<Rightarrow> 1 | AGAINST \<Rightarrow> 2 | ABSTAIN \<Rightarrow> 0)"

lemmas example_defs = vote_def createProposal_def addShareholder_def initCompany_def step_def
  run_def example_mods_def example_state_def deployed_def new_proposal_def Let_def
  setup_txs_def scenario_votes_def

section \<open>Stability of what a proposal is created with\<close>

lemma run_Nil: "run m s [] = s"
  by (simp add: run_def)

lemma run_Cons: "run m s (x # xs) = run m (step m s x) xs"
  by (simp add: run_def)

lemma run_snoc: "run m s (xs @ [x]) = step m (run m s xs) x"
  by (simp add: run_def)

lemma step_length_mono: "length (proposals s) \<le> length (proposals (step m s x))"
proof -
  obtain a t c where x: "x = (a, t, c)" by (cases x)
  show ?thesis
    by (cases c)
      (auto simp: x step_def initCompany_def addShareholder_def createProposal_def vote_def
        Let_def)
qed

lemma step_fixed_fields:
  assumes "k < length (proposals s)"
  shows "threshold (proposals (step m s x) ! k) = threshold (proposals s ! k)
       \<and> pType (proposals (step m s x) ! k) = pType (proposals s ! k)
       \<and> title (proposals (step m s x) ! k) = title (proposals s ! k)
       \<and> proposer (proposals (step m s x) ! k) = proposer (proposals s ! k)
       \<and> deadline (proposals (step m s x) ! k) = deadline (proposals s ! k)
       \<and> active (proposals (step m s x) ! k) = active (proposals s ! k)"
proof -
  obtain a t c where x: "x = (a, t, c)" by (cases x)
  show ?thesis
    using assms
    by (cases c)
      (auto simp: x step_def initCompany_def addShareholder_def createProposal_def vote_def
        Let_def nth_append nth_list_update split: if_splits)
qed

lemma run_length_mono: "length (proposals s) \<le> length (proposals (run m s xs))"
proof (induction xs arbitrary: s)
  case Nil
  show ?case by (simp add: run_Nil)
next
  case (Cons x xs)
  have "length (proposals s) \<le> length (proposals (step m s x))"
    by (rule step_length_mono)
  also have "\<dots> \<le> length (proposals (run m (step m s x) xs))"
    by (rule Cons.IH)
  finally show ?case by (simp add: run_Cons)
qed

lemma run_fixed_fields:
  assumes "k < length (proposals s)"
  shows "threshold (proposals (run m s xs) ! k) = threshold (proposals s ! k)
       \<and> pType (proposals (run m s xs) ! k) = pType (proposals s ! k)
       \<and> title (proposals (run m s xs) ! k) = title (proposals s ! k)
       \<and> proposer (proposals (run m s xs) ! k) = proposer (proposals s ! k)
       \<and> deadline (proposals (run m s xs) ! k) = deadline (proposals s ! k)
       \<and> active (proposals (run m s xs) ! k) = active (proposals s ! k)"
  using assms
proof (induction xs arbitrary: s)
  case Nil
  show ?case by (simp add: run_Nil)
next
  case (Cons x xs)
  have k: "k < length (proposals (step m s x))"
    using Cons.prems step_length_mono [of s m x] by simp
  show ?case
    using Cons.IH [OF k] step_fixed_fields [OF Cons.prems, of m x]
    by (simp add: run_Cons)
qed

section \<open>What a successful call does\<close>

lemma unat_succ_length:
  assumes "n + 1 < (2::nat) ^ 256"
  shows "unat (of_nat n + 1 :: uint256) = n + 1"
proof -
  have e: "(of_nat n + 1 :: uint256) = of_nat (Suc n)" by simp
  have "unat (of_nat (Suc n) :: uint256) = Suc n mod 2 ^ LENGTH(256)"
    by (rule unat_of_nat)
  also have "\<dots> = Suc n" using assms by simp
  finally show ?thesis unfolding e by simp
qed

lemma unat_days_seconds:
  assumes "unat d * 86400 < (2::nat) ^ 256"
  shows "unat (d * 86400 :: uint256) = unat d * 86400"
proof -
  have "unat (d * 86400) = (unat d * unat (86400 :: uint256)) mod 2 ^ LENGTH(256)"
    by (rule unat_word_ariths)
  then show ?thesis using assms by simp
qed

lemma unat_checked_add:
  fixes a b :: "'a::len word"
  assumes "unat a + unat b < 2 ^ LENGTH('a)"
  shows "unat (a + b) = unat a + unat b"
proof -
  have "unat (a + b) = (unat a + unat b) mod 2 ^ LENGTH('a)"
    by (rule unat_word_ariths)
  then show ?thesis using assms by simp
qed

lemma createProposal_Inr:
  assumes "createProposal m s a t ty ti d = Inr (s', i)"
  shows "s' = s\<lparr>proposals := proposals s @ [new_proposal a t ty ti d]\<rparr>"
    and "unat i = length (proposals s) + 1"
    and "unat (t + d * 86400) = unat t + unat d * 86400"
    and "onlyBoard m s a"
proof -
  from assms have b: "onlyBoard m s a"
    and l: "length (proposals s) + 1 < (2::nat) ^ 256"
    and d: "unat d * 86400 < (2::nat) ^ 256"
    and o: "unat t + unat (d * 86400) < (2::nat) ^ 256"
    and i: "i = of_nat (length (proposals s)) + 1"
    and s': "s' = s\<lparr>proposals := proposals s @ [new_proposal a t ty ti d]\<rparr>"
    by (auto simp: createProposal_def new_proposal_def Let_def split: if_splits)
  show "s' = s\<lparr>proposals := proposals s @ [new_proposal a t ty ti d]\<rparr>" by (rule s')
  show "unat i = length (proposals s) + 1"
    unfolding i by (rule unat_succ_length [OF l])
  have "unat (t + d * 86400) = unat t + unat (d * 86400)"
    using o by (intro unat_checked_add) simp
  then show "unat (t + d * 86400) = unat t + unat d * 86400"
    by (simp add: unat_days_seconds [OF d])
  show "onlyBoard m s a" by (rule b)
qed

section \<open>What a successful vote does\<close>

lemma valid_index:
  fixes i :: uint256
  assumes "0 < i" and "unat i \<le> n"
  shows "unat i - 1 < n" and "0 < unat i"
proof -
  from assms(1) show "0 < unat i" by (simp add: word_less_nat_alt)
  then show "unat i - 1 < n" using assms(2) by arith
qed

lemma vote_Inr_pre:
  assumes "vote m s a t i c = Inr s'"
  shows "onlySharehol m s a" and "0 < i" and "unat i \<le> length (proposals s)"
    and "\<not> voted s i a" and "active (proposals s ! (unat i - 1))"
    and "t \<le> deadline (proposals s ! (unat i - 1))"
  using assms by (auto simp: vote_def Let_def split: if_splits)

lemma vote_Inr_voted:
  assumes "vote m s a t i c = Inr s'"
  shows "voted s' = (voted s)(i := (voted s i)(a := True))"
    and "shareholders s' = shareholders s"
    and "length (proposals s') = length (proposals s)"
  using assms by (auto simp: vote_def Let_def split: if_splits)

lemma vote_Inr_tally:
  assumes "vote m s a t i c = Inr s'"
  shows "proposals s' =
           (if c = 1 then (proposals s)[unat i - 1 := (proposals s ! (unat i - 1))
                \<lparr>forVotes := forVotes (proposals s ! (unat i - 1)) + shares (shareholders s a)\<rparr>]
            else if c = 2 then (proposals s)[unat i - 1 := (proposals s ! (unat i - 1))
                \<lparr>againstVotes := againstVotes (proposals s ! (unat i - 1)) + shares (shareholders s a)\<rparr>]
            else proposals s)"
    and "c = 1 \<Longrightarrow> unat (forVotes (proposals s ! (unat i - 1))) + unat (shares (shareholders s a)) < 2 ^ 32"
    and "c = 2 \<Longrightarrow> unat (againstVotes (proposals s ! (unat i - 1))) + unat (shares (shareholders s a)) < 2 ^ 32"
  using assms by (auto simp: vote_def Let_def split: if_splits)

lemma vote_Inr_counts:
  assumes "vote m s a t i c = Inr s'"
  shows "unat (forVotes (proposals s' ! (unat i - 1))) =
           unat (forVotes (proposals s ! (unat i - 1)))
             + (if c = 1 then unat (shares (shareholders s a)) else 0)"
    and "unat (againstVotes (proposals s' ! (unat i - 1))) =
           unat (againstVotes (proposals s ! (unat i - 1)))
             + (if c = 2 then unat (shares (shareholders s a)) else 0)"
    and "n \<noteq> unat i - 1 \<Longrightarrow> proposals s' ! n = proposals s ! n"
proof -
  have k: "unat i - 1 < length (proposals s)"
    using vote_Inr_pre(2,3) [OF assms] by (rule valid_index)
  show "unat (forVotes (proposals s' ! (unat i - 1))) =
           unat (forVotes (proposals s ! (unat i - 1)))
             + (if c = 1 then unat (shares (shareholders s a)) else 0)"
    using vote_Inr_tally [OF assms] k by (auto simp: unat_checked_add)
  show "unat (againstVotes (proposals s' ! (unat i - 1))) =
           unat (againstVotes (proposals s ! (unat i - 1)))
             + (if c = 2 then unat (shares (shareholders s a)) else 0)"
    using vote_Inr_tally [OF assms] k by (auto simp: unat_checked_add)
  show "n \<noteq> unat i - 1 \<Longrightarrow> proposals s' ! n = proposals s ! n"
    using vote_Inr_tally(1) [OF assms] by (simp split: if_splits)
qed

lemma step_voted: "voted s i a \<Longrightarrow> voted (step m s x) i a"
proof -
  assume v: "voted s i a"
  obtain b t c where x: "x = (b, t, c)" by (cases x)
  show ?thesis
    using v
    by (cases c)
      (auto simp: x step_def initCompany_def addShareholder_def createProposal_def vote_def
        Let_def split: if_splits)
qed

lemma run_voted: "voted s i a \<Longrightarrow> voted (run m s xs) i a"
  by (induction xs arbitrary: s) (simp_all add: run_Nil run_Cons step_voted)

lemma vote_after_voted:
  assumes "voted s i a"
  shows "vote m s a t i c =
           Inl (if \<not> onlySharehol m s a then Unauthorized
                else if \<not> (0 < i \<and> unat i \<le> length (proposals s)) then Revert ''Invalid proposal ID''
                else Revert ''Already voted on this proposal'')"
  using assms by (simp add: vote_def)

lemma step_Inl: "exec m s x = Inl e \<Longrightarrow> step m s x = s"
  by (simp add: step_def)

section \<open>The ids of a run\<close>

lemma step_length_returned:
  "length (proposals (step m s x)) =
     length (proposals s) + length (case returned m s x of None \<Rightarrow> [] | Some i \<Rightarrow> [i])"
proof -
  obtain a t c where x: "x = (a, t, c)" by (cases x)
  show ?thesis
    by (cases c)
      (auto simp: x step_def returned_def initCompany_def addShareholder_def createProposal_def
        vote_def Let_def)
qed

lemma returned_Some:
  assumes "returned m s x = Some i"
  shows "unat i = length (proposals s) + 1"
proof -
  obtain a t c where x: "x = (a, t, c)" by (cases x)
  show ?thesis
  proof (cases c)
    case (CreateProposal ty ti d)
    with assms x obtain s' where "createProposal m s a t ty ti d = Inr (s', i)"
      by (cases "createProposal m s a t ty ti d") (auto simp: returned_def)
    then show ?thesis by (rule createProposal_Inr(2))
  next
    case (InitCompany n sh)
    with assms x show ?thesis
      by (cases "initCompany m s a n sh") (auto simp: returned_def)
  next
    case (AddShareholder b sh n)
    with assms x show ?thesis
      by (cases "addShareholder m s a b sh n") (auto simp: returned_def)
  next
    case (Vote j ch)
    with assms x show ?thesis
      by (cases "vote m s a t j ch") (auto simp: returned_def)
  qed
qed

lemma run_length_created:
  "length (proposals (run m s xs)) = length (proposals s) + length (created m s xs)"
proof (induction xs arbitrary: s)
  case Nil
  show ?case by (simp add: run_Nil)
next
  case (Cons x xs)
  show ?case
    by (simp add: run_Cons Cons.IH step_length_returned split: option.split)
qed

lemma created_ids:
  "map unat (created m s xs) =
     [length (proposals s) + 1 ..< length (proposals s) + 1 + length (created m s xs)]"
proof (induction xs arbitrary: s)
  case Nil
  show ?case by simp
next
  case (Cons x xs)
  show ?case
  proof (cases "returned m s x")
    case None
    then have "length (proposals (step m s x)) = length (proposals s)"
      by (simp add: step_length_returned)
    then show ?thesis using Cons.IH [of "step m s x"] None by simp
  next
    case (Some i)
    then have l: "length (proposals (step m s x)) = length (proposals s) + 1"
      by (simp add: step_length_returned)
    have i: "unat i = length (proposals s) + 1"
      by (rule returned_Some [OF Some])
    let ?L = "length (proposals s)" and ?n = "length (created m (step m s x) xs)"
    have e: "[?L + 1 ..< ?L + 1 + (1 + ?n)] = (?L + 1) # [?L + 1 + 1 ..< ?L + 1 + 1 + ?n]"
      by (simp add: upt_conv_Cons del: upt_Suc)
    have "map unat (created m s (x # xs)) = (?L + 1) # map unat (created m (step m s x) xs)"
      using Some i by simp
    also have "\<dots> = (?L + 1) # [?L + 1 + 1 ..< ?L + 1 + 1 + ?n]"
      using Cons.IH [of "step m s x"] by (simp only: l)
    also have "\<dots> = [?L + 1 ..< ?L + 1 + (1 + ?n)]"
      by (simp only: e)
    also have "1 + ?n = length (created m s (x # xs))"
      using Some by simp
    finally show ?thesis .
  qed
qed

lemma created_append:
  "created m s (xs @ ys) = created m s xs @ created m (run m s xs) ys"
  by (induction xs arbitrary: s) (simp_all add: run_Nil run_Cons)

lemma deployed_no_proposals: "proposals deployed = []"
  by (simp add: deployed_def)

section \<open>The ballots of a run\<close>

lemma voters_Nil [simp]: "voters [] i = []"
  by (simp add: voters_def)

lemma shares_cast_Nil [simp]: "shares_cast P [] i = 0"
  by (simp add: shares_cast_def)

lemma voters_snoc:
  "voters (bs @ [(j, a, w, c)]) i = (if j = i then voters bs i @ [a] else voters bs i)"
  by (simp add: voters_def)

lemma shares_cast_snoc:
  "shares_cast P (bs @ [(j, a, w, c)]) i =
     (if j = i \<and> P c then shares_cast P bs i + unat w else shares_cast P bs i)"
  by (simp add: shares_cast_def)

lemma shares_cast_no_voters: "voters bs i = [] \<Longrightarrow> shares_cast P bs i = 0"
  by (induction bs) (auto simp: voters_def shares_cast_def split: if_splits)

lemma shares_cast_split:
  "shares_cast (\<lambda>c. True) bs i =
     shares_cast (\<lambda>c. c = 1) bs i + shares_cast (\<lambda>c. c = 2) bs i
       + shares_cast (\<lambda>c. c \<noteq> 1 \<and> c \<noteq> 2) bs i"
  by (induction bs) (auto simp: shares_cast_def)

lemma ledger_inv_deployed: "ledger_inv deployed []"
  by (auto simp: ledger_inv_def deployed_def word_less_nat_alt)

lemma ledger_inv_same:
  assumes "ledger_inv s bs" and "proposals s' = proposals s" and "voted s' = voted s"
  shows "ledger_inv s' bs"
  using assms by (simp add: ledger_inv_def)

lemma ledger_inv_create:
  assumes inv: "ledger_inv s bs"
    and c: "createProposal m s a t ty ti d = Inr (s', i)"
  shows "ledger_inv s' bs"
proof -
  have s': "s' = s\<lparr>proposals := proposals s @ [new_proposal a t ty ti d]\<rparr>"
    by (rule createProposal_Inr(1) [OF c])
  have "(0 < j \<and> unat j \<le> length (proposals s') \<longrightarrow>
             unat (forVotes (proposals s' ! (unat j - 1))) = shares_cast (\<lambda>c. c = 1) bs j
           \<and> unat (againstVotes (proposals s' ! (unat j - 1))) = shares_cast (\<lambda>c. c = 2) bs j)
        \<and> (\<not> (0 < j \<and> unat j \<le> length (proposals s')) \<longrightarrow> voters bs j = [])
        \<and> (\<forall>a. voted s' j a \<longleftrightarrow> a \<in> set (voters bs j))
        \<and> distinct (voters bs j)" for j
  proof (cases "0 < j \<and> unat j \<le> length (proposals s)")
    case True
    then have "unat j - 1 < length (proposals s)"
      using valid_index(1) [of j "length (proposals s)"] by simp
    then have "proposals s' ! (unat j - 1) = proposals s ! (unat j - 1)"
      by (simp add: s' nth_append)
    moreover have "unat j \<le> length (proposals s')" using True by (simp add: s')
    ultimately show ?thesis
      using inv True by (simp add: ledger_inv_def s')
  next
    case False
    then have e: "voters bs j = []"
      using inv by (simp add: ledger_inv_def)
    have z: "shares_cast P bs j = 0" for P
      by (rule shares_cast_no_voters [OF e])
    have v: "\<forall>a. voted s j a \<longleftrightarrow> a \<in> set (voters bs j)"
      using inv by (simp add: ledger_inv_def)
    show ?thesis
    proof (cases "0 < j \<and> unat j \<le> length (proposals s')")
      case True
      with False have "unat j - 1 = length (proposals s)"
        by (auto simp: s')
      then have "proposals s' ! (unat j - 1) = new_proposal a t ty ti d"
        by (simp add: s')
      then have "forVotes (proposals s' ! (unat j - 1)) = 0"
        and "againstVotes (proposals s' ! (unat j - 1)) = 0"
        by (simp_all add: new_proposal_def)
      moreover have "voted s' = voted s" by (simp add: s')
      ultimately show ?thesis
        using True e z v by simp
    next
      case False
      moreover have "voted s' = voted s" by (simp add: s')
      ultimately show ?thesis using e v by auto
    qed
  qed
  then show ?thesis unfolding ledger_inv_def by blast
qed

lemma unat_index_inj:
  fixes i j :: uint256
  assumes "0 < i" and "0 < j" and "unat i - 1 = unat j - 1"
  shows "i = j"
proof -
  have "0 < unat i" and "0 < unat j"
    using assms(1,2) by (simp_all add: word_less_nat_alt)
  with assms(3) have "unat i = unat j" by arith
  then show ?thesis by (simp add: word_unat_eq_iff)
qed

lemma ledger_inv_vote:
  assumes inv: "ledger_inv s bs"
    and v: "vote m s a t i c = Inr s'"
  shows "ledger_inv s' (bs @ [(i, a, shares (shareholders s a), c)])"
proof -
  let ?w = "shares (shareholders s a)"
  let ?bs = "bs @ [(i, a, ?w, c)]"
  have pre: "0 < i" "unat i \<le> length (proposals s)" "\<not> voted s i a"
    using vote_Inr_pre [OF v] by simp_all
  have vo: "voted s' = (voted s)(i := (voted s i)(a := True))"
    and len: "length (proposals s') = length (proposals s)"
    using vote_Inr_voted [OF v] by simp_all
  have "(0 < j \<and> unat j \<le> length (proposals s') \<longrightarrow>
             unat (forVotes (proposals s' ! (unat j - 1))) = shares_cast (\<lambda>c. c = 1) ?bs j
           \<and> unat (againstVotes (proposals s' ! (unat j - 1))) = shares_cast (\<lambda>c. c = 2) ?bs j)
        \<and> (\<not> (0 < j \<and> unat j \<le> length (proposals s')) \<longrightarrow> voters ?bs j = [])
        \<and> (\<forall>a. voted s' j a \<longleftrightarrow> a \<in> set (voters ?bs j))
        \<and> distinct (voters ?bs j)" for j
  proof (cases "j = i")
    case True
    have old: "unat (forVotes (proposals s ! (unat i - 1))) = shares_cast (\<lambda>c. c = 1) bs i"
      "unat (againstVotes (proposals s ! (unat i - 1))) = shares_cast (\<lambda>c. c = 2) bs i"
      "\<forall>b. voted s i b \<longleftrightarrow> b \<in> set (voters bs i)"
      "distinct (voters bs i)"
      using inv pre(1,2) by (simp_all add: ledger_inv_def)
    have "a \<notin> set (voters bs i)"
      using old(3) pre(3) by simp
    then show ?thesis
      using old pre(1,2) vote_Inr_counts(1,2) [OF v]
      by (auto simp: True len vo voters_snoc shares_cast_snoc)
  next
    case False
    have old: "0 < j \<and> unat j \<le> length (proposals s) \<longrightarrow>
                 unat (forVotes (proposals s ! (unat j - 1))) = shares_cast (\<lambda>c. c = 1) bs j
               \<and> unat (againstVotes (proposals s ! (unat j - 1))) = shares_cast (\<lambda>c. c = 2) bs j"
      "\<not> (0 < j \<and> unat j \<le> length (proposals s)) \<longrightarrow> voters bs j = []"
      "\<forall>b. voted s j b \<longleftrightarrow> b \<in> set (voters bs j)"
      "distinct (voters bs j)"
      using inv by (simp_all add: ledger_inv_def)
    have "proposals s' ! (unat j - 1) = proposals s ! (unat j - 1)" if "0 < j"
    proof -
      have "unat j - 1 \<noteq> unat i - 1"
        using unat_index_inj [OF that pre(1)] False by blast
      then show ?thesis by (rule vote_Inr_counts(3) [OF v])
    qed
    then show ?thesis
      using old False
      by (auto simp: len vo voters_snoc shares_cast_snoc)
  qed
  then show ?thesis unfolding ledger_inv_def by blast
qed

lemma ledger_inv_step:
  assumes "ledger_inv s bs"
  shows "ledger_inv (step m s x) (bs @ ballot_of m s x)"
proof -
  obtain a t c where x: "x = (a, t, c)" by (cases x)
  show ?thesis
  proof (cases c)
    case (InitCompany n sh)
    have "proposals (step m s x) = proposals s" and "voted (step m s x) = voted s"
      by (auto simp: x InitCompany step_def initCompany_def)
    then show ?thesis
      using assms by (simp add: x InitCompany ledger_inv_same)
  next
    case (AddShareholder b sh n)
    have "proposals (step m s x) = proposals s" and "voted (step m s x) = voted s"
      by (auto simp: x AddShareholder step_def addShareholder_def)
    then show ?thesis
      using assms by (simp add: x AddShareholder ledger_inv_same)
  next
    case (CreateProposal ty ti d)
    show ?thesis
    proof (cases "createProposal m s a t ty ti d")
      case (Inl e)
      then show ?thesis using assms by (simp add: x CreateProposal step_def)
    next
      case (Inr r)
      obtain s' i where r: "r = (s', i)" by (cases r)
      have "ledger_inv s' bs"
        using assms Inr by (simp add: ledger_inv_create r)
      then show ?thesis by (simp add: x CreateProposal step_def Inr r)
    qed
  next
    case (Vote i ch)
    show ?thesis
    proof (cases "vote m s a t i ch")
      case (Inl e)
      then show ?thesis using assms by (simp add: x Vote step_def)
    next
      case (Inr s')
      have "ledger_inv s' (bs @ [(i, a, shares (shareholders s a), ch)])"
        using assms Inr by (rule ledger_inv_vote)
      then show ?thesis by (simp add: x Vote step_def Inr)
    qed
  qed
qed

lemma ballots_snoc: "ballots m s (xs @ [x]) = ballots m s xs @ ballot_of m (run m s xs) x"
  by (induction xs arbitrary: s) (simp_all add: run_Nil run_Cons)

lemma ledger_inv_run: "ledger_inv (run m deployed xs) (ballots m deployed xs)"
proof (induction xs rule: rev_induct)
  case Nil
  show ?case by (simp add: run_Nil ledger_inv_deployed)
next
  case (snoc x xs)
  then show ?case
    by (simp only: run_snoc ballots_snoc ledger_inv_step)
qed

section \<open>The effects of the handler\<close>

lemma try_block_effects:
  "list_all (\<lambda>e. \<not> is_contract_call e \<and> (is_toast_or_wait e \<or> is_page_state e))
     (try_block labels ch)"
  by (simp add: try_block_def)

lemma list_all_take: "list_all P xs \<Longrightarrow> list_all P (take k xs)"
  by (auto simp: list_all_iff dest: in_set_takeD)

lemma handleVote_effects:
  "list_all (\<lambda>e. \<not> is_contract_call e \<and> (is_toast_or_wait e \<or> is_page_state e))
     (handleVote conn loaded labels thrown pid ch)"
proof (cases thrown)
  case None
  then show ?thesis
    using try_block_effects [of labels ch] by (simp add: handleVote_def)
next
  case (Some km)
  obtain k msg where km: "km = (k, msg)" by (cases km)
  show ?thesis
    using list_all_take [OF try_block_effects [of labels ch], of k]
    by (simp add: handleVote_def Some km)
qed

lemma ledger_after_no_call:
  "list_all (\<lambda>e. \<not> is_contract_call e) es \<Longrightarrow> ledger_after m a t enc es g = g"
proof (induction es)
  case Nil
  show ?case by simp
next
  case (Cons e es)
  then show ?case by (cases e) simp_all
qed

lemma example_state_reachable: "run example_mods deployed setup_txs = example_state"
  by (simp add: run_def setup_txs_def step_def example_mods_def deployed_def example_state_def
      initCompany_def addShareholder_def createProposal_def Let_def new_proposal_def fun_eq_iff)

section \<open>Claims about createProposal\<close>

text \<open>
  C1. The threshold that \<open>createProposal\<close> stores depends on the type alone: 75 for
  type 2, 60 for type 1, 50 for every other type. It is stored at index \<open>id - 1\<close> and
  no later transaction changes it: after any run of \<open>initCompany\<close>, \<open>addShareholder\<close>,
  \<open>createProposal\<close> and \<open>vote\<close> calls (the empty run included), under any modifiers,
  the proposal still holds that threshold.
\<close>

theorem createProposal_threshold_fixed:
  assumes "createProposal m s a t ty ti d = Inr (s', i)"
  shows "threshold (proposals (run m' s' xs) ! (unat i - 1)) =
           (if ty = 2 then 75 else if ty = 1 then 60 else 50)"
proof -
  have s': "s' = s\<lparr>proposals := proposals s @ [new_proposal a t ty ti d]\<rparr>"
    and i: "unat i = length (proposals s) + 1"
    using createProposal_Inr [OF assms] by simp_all
  have k: "unat i - 1 < length (proposals s')"
    by (simp add: s' i)
  have "threshold (proposals (run m' s' xs) ! (unat i - 1)) =
          threshold (proposals s' ! (unat i - 1))"
    using run_fixed_fields [OF k] by simp
  also have "\<dots> = threshold (new_proposal a t ty ti d)"
    by (simp add: s' i)
  finally show ?thesis by (simp add: new_proposal_def)
qed

theorem createProposal_threshold_fixed_witness:
  "createProposal example_mods deployed 1 1000 2 ''Merger'' 7 =
     Inr (deployed\<lparr>proposals := [new_proposal 1 1000 2 ''Merger'' 7]\<rparr>, 1)
   \<and> threshold (proposals (run example_mods (deployed\<lparr>proposals := [new_proposal 1 1000 2 ''Merger'' 7]\<rparr>)
        [(1, 2000, AddShareholder 10 50000 ''Alice Johnson''), (10, 3000, Vote 1 1)]) ! 0) = 75"
proof -
  have h: "createProposal example_mods deployed 1 1000 2 ''Merger'' 7 =
     Inr (deployed\<lparr>proposals := [new_proposal 1 1000 2 ''Merger'' 7]\<rparr>, 1)"
    by (simp add: createProposal_def example_mods_def deployed_def new_proposal_def)
  show ?thesis
    using h createProposal_threshold_fixed [OF h, of example_mods
        "[(1, 2000, AddShareholder 10 50000 ''Alice Johnson''), (10, 3000, Vote 1 1)]"]
    by simp
qed

text \<open>
  C7. \<open>createProposal\<close> assigns sequential ids that start at 1. When a call succeeds
  after any run from the deployed contract, the id it returns is one more than the
  number of successful \<open>createProposal\<close> calls before it, so that the ids returned by
  the successful calls of the whole run are \<open>1, 2, ..., n\<close>; the new proposal is
  appended behind the proposals that exist, at index \<open>id - 1\<close>; its deadline is the
  block timestamp plus the given number of days (of 86400 seconds). The list is
  append-only: no later transaction removes or moves a proposal, or changes the type,
  title, proposer, deadline or threshold that it was created with.
\<close>

theorem createProposal_sequential:
  assumes "createProposal m (run m deployed xs) a t ty ti d = Inr (s', i)"
  shows "unat i = length (created m deployed xs) + 1
       \<and> map unat (created m deployed (xs @ [(a, t, CreateProposal ty ti d)])) = [1 ..< unat i + 1]
       \<and> proposals s' = proposals (run m deployed xs) @ [new_proposal a t ty ti d]
       \<and> length (proposals (run m deployed xs)) = unat i - 1
       \<and> proposals s' ! (unat i - 1) = new_proposal a t ty ti d
       \<and> unat (deadline (proposals s' ! (unat i - 1))) = unat t + unat d * 86400
       \<and> (\<forall>k < length (proposals s').
            k < length (proposals (run m' s' ys))
          \<and> pType (proposals (run m' s' ys) ! k) = pType (proposals s' ! k)
          \<and> title (proposals (run m' s' ys) ! k) = title (proposals s' ! k)
          \<and> proposer (proposals (run m' s' ys) ! k) = proposer (proposals s' ! k)
          \<and> deadline (proposals (run m' s' ys) ! k) = deadline (proposals s' ! k)
          \<and> threshold (proposals (run m' s' ys) ! k) = threshold (proposals s' ! k))"
proof -
  let ?s = "run m deployed xs"
  have s': "s' = ?s\<lparr>proposals := proposals ?s @ [new_proposal a t ty ti d]\<rparr>"
    and i: "unat i = length (proposals ?s) + 1"
    and dl: "unat (t + d * 86400) = unat t + unat d * 86400"
    using createProposal_Inr [OF assms] by simp_all
  have n: "length (proposals ?s) = length (created m deployed xs)"
    using run_length_created [of m deployed xs] by (simp add: deployed_no_proposals)
  have c1: "unat i = length (created m deployed xs) + 1"
    using i n by simp
  have r: "returned m ?s (a, t, CreateProposal ty ti d) = Some i"
    by (simp add: returned_def assms)
  have "created m deployed (xs @ [(a, t, CreateProposal ty ti d)]) = created m deployed xs @ [i]"
    by (simp add: created_append r)
  then have c2: "map unat (created m deployed (xs @ [(a, t, CreateProposal ty ti d)]))
                   = [1 ..< unat i + 1]"
    using created_ids [of m deployed "xs @ [(a, t, CreateProposal ty ti d)]"] c1
    by (simp add: deployed_no_proposals)
  have c3: "proposals s' = proposals ?s @ [new_proposal a t ty ti d]"
    by (simp add: s')
  have c4: "length (proposals ?s) = unat i - 1"
    using i by simp
  have c5: "proposals s' ! (unat i - 1) = new_proposal a t ty ti d"
    by (simp add: c3 i)
  have c6: "unat (deadline (proposals s' ! (unat i - 1))) = unat t + unat d * 86400"
    using dl c5 by (simp add: new_proposal_def)
  have c7: "k < length (proposals (run m' s' ys))
          \<and> pType (proposals (run m' s' ys) ! k) = pType (proposals s' ! k)
          \<and> title (proposals (run m' s' ys) ! k) = title (proposals s' ! k)
          \<and> proposer (proposals (run m' s' ys) ! k) = proposer (proposals s' ! k)
          \<and> deadline (proposals (run m' s' ys) ! k) = deadline (proposals s' ! k)
          \<and> threshold (proposals (run m' s' ys) ! k) = threshold (proposals s' ! k)"
    if "k < length (proposals s')" for k
    using that run_fixed_fields [OF that, of m' ys] run_length_mono [of s' m' ys] by simp
  show ?thesis
    using c1 c2 c3 c4 c5 c6 c7 by blast
qed

theorem createProposal_sequential_witness:
  "createProposal example_mods
     (run example_mods deployed [(1, 1000, CreateProposal 2 ''Merger'' 30)])
     1 2000 1 ''Budget'' 7
   = Inr (deployed\<lparr>proposals :=
            [new_proposal 1 1000 2 ''Merger'' 30, new_proposal 1 2000 1 ''Budget'' 7]\<rparr>, 2)
   \<and> map unat (created example_mods deployed
        [(1, 1000, CreateProposal 2 ''Merger'' 30), (1, 2000, CreateProposal 1 ''Budget'' 7)])
       = [1, 2]
   \<and> unat (deadline (new_proposal 1 2000 1 ''Budget'' 7)) = 2000 + 7 * 86400
   \<and> (1::nat) < length [new_proposal 1 1000 2 ''Merger'' 30, new_proposal 1 2000 1 ''Budget'' 7]
   \<and> title (proposals (run example_mods
         (deployed\<lparr>proposals :=
            [new_proposal 1 1000 2 ''Merger'' 30, new_proposal 1 2000 1 ''Budget'' 7]\<rparr>)
         [(1, 3000, AddShareholder 10 50000 ''Alice Johnson''), (10, 4000, Vote 2 1)]) ! 1)
       = ''Budget''"
proof -
  have h: "createProposal example_mods
     (run example_mods deployed [(1, 1000, CreateProposal 2 ''Merger'' 30)])
     1 2000 1 ''Budget'' 7
   = Inr (deployed\<lparr>proposals :=
            [new_proposal 1 1000 2 ''Merger'' 30, new_proposal 1 2000 1 ''Budget'' 7]\<rparr>, 2)"
    by (simp add: example_defs)
  have u: "[1 ..< unat (2::uint256) + 1] = [1, 2]"
    by (simp add: upt_rec)
  let ?S = "deployed\<lparr>proposals :=
            [new_proposal 1 1000 2 ''Merger'' 30, new_proposal 1 2000 1 ''Budget'' 7]\<rparr>"
  let ?ys = "[(1, 3000, AddShareholder 10 50000 ''Alice Johnson''), (10, 4000, Vote 2 1)]"
  note th = createProposal_sequential [OF h, of example_mods ?ys]
  have k: "(1::nat) < length (proposals ?S)" by simp
  from th have "\<forall>k < length (proposals ?S).
      title (proposals (run example_mods ?S ?ys) ! k) = title (proposals ?S ! k)"
    by blast
  with k have "title (proposals (run example_mods ?S ?ys) ! 1) = title (proposals ?S ! 1)"
    by blast
  then have t: "title (proposals (run example_mods ?S ?ys) ! 1) = ''Budget''"
    by (simp add: new_proposal_def)
  from th have c: "map unat (created example_mods deployed
        ([(1, 1000, CreateProposal 2 ''Merger'' 30)] @ [(1, 2000, CreateProposal 1 ''Budget'' 7)]))
       = [1 ..< unat (2::uint256) + 1]"
    and d: "unat (deadline (proposals ?S ! (unat (2::uint256) - 1))) = unat (2000::uint256) + unat (7::uint256) * 86400"
    by blast+
  show ?thesis
    using h u t c d by simp
qed

section \<open>Claims about vote\<close>

text \<open>
  C2. After a successful \<open>vote\<close> call by an address on a proposal, every later \<open>vote\<close>
  call by the same address on the same proposal fails, whatever has happened in between,
  at any time and with any choice: with the reason \<open>Already voted on this proposal\<close>
  when the modifier admits the caller, and in the modifier otherwise. The failed call
  leaves the storage as it was.
\<close>

theorem second_vote_fails:
  assumes "vote m s a t i c = Inr s1"
  shows "vote m' (run m' s1 xs) a t' i c' =
           Inl (if onlySharehol m' (run m' s1 xs) a
                then Revert ''Already voted on this proposal'' else Unauthorized)
       \<and> step m' (run m' s1 xs) (a, t', Vote i c') = run m' s1 xs"
proof -
  let ?s2 = "run m' s1 xs"
  have "voted s1 i a"
    using vote_Inr_voted(1) [OF assms] by simp
  then have v: "voted ?s2 i a" by (rule run_voted)
  have "unat i \<le> length (proposals s1)"
    using vote_Inr_pre(3) [OF assms] vote_Inr_voted(3) [OF assms] by simp
  then have l: "unat i \<le> length (proposals ?s2)"
    using run_length_mono [of s1 m' xs] by simp
  have p: "0 < i" by (rule vote_Inr_pre(2) [OF assms])
  have f: "vote m' ?s2 a t' i c' =
           Inl (if onlySharehol m' ?s2 a
                then Revert ''Already voted on this proposal'' else Unauthorized)"
    using l p by (simp add: vote_after_voted [OF v])
  moreover have "step m' ?s2 (a, t', Vote i c') = ?s2"
    by (simp add: step_def f)
  ultimately show ?thesis by simp
qed

theorem second_vote_fails_witness:
  "vote example_mods example_state 10 2000 1 1 =
     Inr (step example_mods example_state (10, 2000, Vote 1 1))
   \<and> vote example_mods
       (run example_mods (step example_mods example_state (10, 2000, Vote 1 1))
          [(11, 3000, Vote 1 2)]) 10 4000 1 2
     = Inl (Revert ''Already voted on this proposal'')
   \<and> step example_mods
       (run example_mods (step example_mods example_state (10, 2000, Vote 1 1))
          [(11, 3000, Vote 1 2)]) (10, 4000, Vote 1 2)
     = run example_mods (step example_mods example_state (10, 2000, Vote 1 1))
          [(11, 3000, Vote 1 2)]"
proof -
  have h: "vote example_mods example_state 10 2000 1 1 =
     Inr (step example_mods example_state (10, 2000, Vote 1 1))"
    by (simp add: example_defs)
  have g: "onlySharehol example_mods
       (run example_mods (step example_mods example_state (10, 2000, Vote 1 1))
          [(11, 3000, Vote 1 2)]) 10"
    by (simp add: example_defs)
  show ?thesis
    using h g second_vote_fails [OF h, of example_mods "[(11, 3000, Vote 1 2)]" 4000 2]
    by simp
qed

text \<open>
  C3. A \<open>vote\<close> call on an existing proposal at a time strictly after the proposal's
  deadline fails, whatever the \<open>active\<close> flag, the caller and the choice are, and leaves
  the storage as it was. The reason is \<open>Voting period ended\<close> unless an earlier check
  (the modifier, the double vote) has already rejected the call.
\<close>

theorem vote_after_deadline_fails:
  assumes "0 < i" and "unat i \<le> length (proposals s)"
    and "deadline (proposals s ! (unat i - 1)) < t"
  shows "vote m s a t i c =
           Inl (if \<not> onlySharehol m s a then Unauthorized
                else if voted s i a then Revert ''Already voted on this proposal''
                else Revert ''Voting period ended'')
       \<and> step m s (a, t, Vote i c) = s"
proof -
  have n: "\<not> t \<le> deadline (proposals s ! (unat i - 1))"
    using assms(3) by simp
  have f: "vote m s a t i c =
           Inl (if \<not> onlySharehol m s a then Unauthorized
                else if voted s i a then Revert ''Already voted on this proposal''
                else Revert ''Voting period ended'')"
    using assms(1,2) n by (simp add: vote_def Let_def)
  then show ?thesis by (simp add: step_def)
qed

theorem vote_after_deadline_fails_witness:
  "(0::uint256) < 1 \<and> unat (1::uint256) \<le> length (proposals example_state)
   \<and> deadline (proposals example_state ! (unat (1::uint256) - 1)) < 700000
   \<and> active (proposals example_state ! (unat (1::uint256) - 1))
   \<and> vote example_mods example_state 10 700000 1 1 = Inl (Revert ''Voting period ended'')
   \<and> step example_mods example_state (10, 700000, Vote 1 1) = example_state"
proof -
  have a: "(0::uint256) < 1" by simp
  have b: "unat (1::uint256) \<le> length (proposals example_state)"
    by (simp add: example_state_def)
  have c: "deadline (proposals example_state ! (unat (1::uint256) - 1)) < 700000"
    by (simp add: example_state_def new_proposal_def)
  have d: "active (proposals example_state ! (unat (1::uint256) - 1))"
    by (simp add: example_state_def new_proposal_def)
  have e: "onlySharehol example_mods example_state 10 \<and> \<not> voted example_state 1 10"
    by (simp add: example_state_def example_mods_def)
  show ?thesis
    using a b c d e vote_after_deadline_fails [OF a b c, of example_mods 10 1]
    by simp
qed

text \<open>
  C4, as amended. A \<open>vote\<close> call succeeds only if the proposal exists, its \<open>active\<close>
  flag is true and the current time is at most the deadline: the \<open>require\<close> of the
  source is \<open>block.timestamp <= p.deadline\<close>, so that a vote at the deadline itself is
  accepted.
\<close>

theorem vote_only_in_window:
  assumes "vote m s a t i c = Inr s'"
  shows "0 < i \<and> unat i \<le> length (proposals s)
       \<and> active (proposals s ! (unat i - 1)) \<and> t \<le> deadline (proposals s ! (unat i - 1))"
  using vote_Inr_pre [OF assms] by simp

theorem vote_only_in_window_witness:
  "vote example_mods example_state 10 2000 1 1 =
     Inr (step example_mods example_state (10, 2000, Vote 1 1))
   \<and> active (proposals example_state ! (unat (1::uint256) - 1))
   \<and> (2000::uint256) \<le> deadline (proposals example_state ! (unat (1::uint256) - 1))"
proof -
  have h: "vote example_mods example_state 10 2000 1 1 =
     Inr (step example_mods example_state (10, 2000, Vote 1 1))"
    by (simp add: example_defs)
  show ?thesis
    using h vote_only_in_window [OF h] by simp
qed

text \<open>
  C4, as stated (a vote succeeds only strictly before the deadline), fails: the proposal
  of the scenario has deadline \<open>1000 + 7 * 86400 = 605800\<close>, and a vote at time 605800
  succeeds.
\<close>

theorem vote_at_deadline_counterexample:
  "deadline (proposals example_state ! (unat (1::uint256) - 1)) = 605800
   \<and> active (proposals example_state ! (unat (1::uint256) - 1))
   \<and> \<not> isl (vote example_mods example_state 10 605800 1 1)
   \<and> \<not> ((605800::uint256) < deadline (proposals example_state ! (unat (1::uint256) - 1)))"
  by (simp add: vote_def example_mods_def example_state_def new_proposal_def Let_def)

text \<open>
  C5. A successful \<open>vote\<close> call with choice 1 adds exactly the caller's share count, as
  stored when the call is made, to \<open>forVotes\<close> of the proposal and leaves \<open>againstVotes\<close>
  as it was; with choice 2 it adds that share count to \<open>againstVotes\<close> and leaves
  \<open>forVotes\<close> as it was; with choice 0 it leaves both tallies as they were. The sums are
  sums of natural numbers: a call whose addition would overflow 32 bits does not succeed.
\<close>

theorem vote_adds_shares:
  assumes "vote m s a t i c = Inr s'"
  shows "(c = 1 \<longrightarrow>
            unat (forVotes (proposals s' ! (unat i - 1))) =
              unat (forVotes (proposals s ! (unat i - 1))) + unat (shares (shareholders s a))
          \<and> againstVotes (proposals s' ! (unat i - 1)) = againstVotes (proposals s ! (unat i - 1)))
       \<and> (c = 2 \<longrightarrow>
            unat (againstVotes (proposals s' ! (unat i - 1))) =
              unat (againstVotes (proposals s ! (unat i - 1))) + unat (shares (shareholders s a))
          \<and> forVotes (proposals s' ! (unat i - 1)) = forVotes (proposals s ! (unat i - 1)))
       \<and> (c = 0 \<longrightarrow>
            forVotes (proposals s' ! (unat i - 1)) = forVotes (proposals s ! (unat i - 1))
          \<and> againstVotes (proposals s' ! (unat i - 1)) = againstVotes (proposals s ! (unat i - 1)))"
proof -
  have k: "unat i - 1 < length (proposals s)"
    using vote_Inr_pre(2,3) [OF assms] by (rule valid_index)
  show ?thesis
    using vote_Inr_tally [OF assms] k
    by (auto simp: unat_checked_add)
qed

theorem vote_adds_shares_witness:
  "vote example_mods example_state 10 2000 1 1 =
     Inr (step example_mods example_state (10, 2000, Vote 1 1))
   \<and> unat (forVotes (proposals (step example_mods example_state (10, 2000, Vote 1 1)) ! 0)) = 0 + 50000
   \<and> againstVotes (proposals (step example_mods example_state (10, 2000, Vote 1 1)) ! 0) = 0
   \<and> vote example_mods example_state 11 2000 1 2 =
     Inr (step example_mods example_state (11, 2000, Vote 1 2))
   \<and> unat (againstVotes (proposals (step example_mods example_state (11, 2000, Vote 1 2)) ! 0)) = 0 + 30000
   \<and> forVotes (proposals (step example_mods example_state (11, 2000, Vote 1 2)) ! 0) = 0
   \<and> vote example_mods example_state 12 2000 1 0 =
     Inr (step example_mods example_state (12, 2000, Vote 1 0))
   \<and> forVotes (proposals (step example_mods example_state (12, 2000, Vote 1 0)) ! 0) = 0
   \<and> againstVotes (proposals (step example_mods example_state (12, 2000, Vote 1 0)) ! 0) = 0"
proof -
  have h1: "vote example_mods example_state 10 2000 1 1 =
     Inr (step example_mods example_state (10, 2000, Vote 1 1))"
    by (simp add: example_defs)
  have h2: "vote example_mods example_state 11 2000 1 2 =
     Inr (step example_mods example_state (11, 2000, Vote 1 2))"
    by (simp add: example_defs)
  have h0: "vote example_mods example_state 12 2000 1 0 =
     Inr (step example_mods example_state (12, 2000, Vote 1 0))"
    by (simp add: example_defs)
  have p: "forVotes (proposals example_state ! 0) = 0"
    "againstVotes (proposals example_state ! 0) = 0"
    "shares (shareholders example_state 10) = 50000"
    "shares (shareholders example_state 11) = 30000"
    by (simp_all add: example_state_def new_proposal_def)
  show ?thesis
    using h1 h2 h0 p vote_adds_shares [OF h1] vote_adds_shares [OF h2] vote_adds_shares [OF h0]
    by simp
qed

text \<open>
  C9. \<open>vote\<close> accepts every \<open>uint8\<close> choice. For a choice other than 1 and 2 (0, but
  also 3 or 255), a call that the modifier admits and that passes the checks of the id,
  of the double vote and of the voting window succeeds; it only sets \<open>voted\<close> for the
  caller, so that the proposals, and with them both tallies, stay as they were; and every
  later \<open>vote\<close> call of that caller on that proposal fails.
\<close>

theorem unrecognised_choice_abstains:
  assumes "onlySharehol m s a" and "0 < i" and "unat i \<le> length (proposals s)"
    and "\<not> voted s i a"
    and "active (proposals s ! (unat i - 1))" and "t \<le> deadline (proposals s ! (unat i - 1))"
    and "c \<noteq> 1" and "c \<noteq> 2"
  shows "vote m s a t i c = Inr (s\<lparr>voted := (voted s)(i := (voted s i)(a := True))\<rparr>)
       \<and> proposals (step m s (a, t, Vote i c)) = proposals s
       \<and> voted (step m s (a, t, Vote i c)) i a
       \<and> isl (vote m' (run m' (step m s (a, t, Vote i c)) xs) a t' i c')"
proof -
  let ?s1 = "s\<lparr>voted := (voted s)(i := (voted s i)(a := True))\<rparr>"
  have v: "vote m s a t i c = Inr ?s1"
    using assms by (simp add: vote_def Let_def)
  then have st: "step m s (a, t, Vote i c) = ?s1"
    by (simp add: step_def)
  have "voted ?s1 i a" by simp
  then have "voted (run m' ?s1 xs) i a" by (rule run_voted)
  then have "isl (vote m' (run m' ?s1 xs) a t' i c')"
    by (simp add: vote_after_voted)
  then show ?thesis using v by (simp add: st)
qed

theorem unrecognised_choice_abstains_witness:
  "vote example_mods example_state 12 2000 1 255 =
     Inr (example_state\<lparr>voted := (voted example_state)(1 := (voted example_state 1)(12 := True))\<rparr>)
   \<and> proposals (step example_mods example_state (12, 2000, Vote 1 255)) = proposals example_state
   \<and> voted (step example_mods example_state (12, 2000, Vote 1 255)) 1 12
   \<and> isl (vote example_mods
        (run example_mods (step example_mods example_state (12, 2000, Vote 1 255))
           [(10, 3000, Vote 1 1)]) 12 4000 1 1)"
proof -
  have a: "onlySharehol example_mods example_state 12"
    by (simp add: example_mods_def example_state_def)
  have b: "(0::uint256) < 1" by simp
  have c: "unat (1::uint256) \<le> length (proposals example_state)"
    by (simp add: example_state_def)
  have d: "\<not> voted example_state 1 12"
    by (simp add: example_state_def)
  have e: "active (proposals example_state ! (unat (1::uint256) - 1))"
    by (simp add: example_state_def new_proposal_def)
  have f: "(2000::uint256) \<le> deadline (proposals example_state ! (unat (1::uint256) - 1))"
    by (simp add: example_state_def new_proposal_def)
  have g: "(255::uint8) \<noteq> 1" "(255::uint8) \<noteq> 2" by simp_all
  show ?thesis
    using unrecognised_choice_abstains [OF a b c d e f g, of example_mods "[(10, 3000, Vote 1 1)]" 4000 1]
    by simp
qed

text \<open>
  C6. In every state that a run of transactions reaches from the deployed contract, for
  every existing proposal, \<open>forVotes + againstVotes\<close> is at most the sum of the share
  counts, taken at the time of voting, of the addresses that have voted on the proposal.
  The difference is exactly the share counts of the ballots whose choice is neither 1 nor
  2: an abstention adds nothing to the tallies. The voters of the ballots are distinct and
  are exactly the addresses that \<open>voted\<close> records for the proposal.
\<close>

theorem tally_within_cast_shares:
  assumes "0 < i" and "unat i \<le> length (proposals (run m deployed xs))"
  shows "unat (forVotes (proposals (run m deployed xs) ! (unat i - 1)))
           + unat (againstVotes (proposals (run m deployed xs) ! (unat i - 1)))
         \<le> shares_cast (\<lambda>c. True) (ballots m deployed xs) i
       \<and> unat (forVotes (proposals (run m deployed xs) ! (unat i - 1)))
           + unat (againstVotes (proposals (run m deployed xs) ! (unat i - 1)))
           + shares_cast (\<lambda>c. c \<noteq> 1 \<and> c \<noteq> 2) (ballots m deployed xs) i
         = shares_cast (\<lambda>c. True) (ballots m deployed xs) i
       \<and> distinct (voters (ballots m deployed xs) i)
       \<and> set (voters (ballots m deployed xs) i) = {a. voted (run m deployed xs) i a}"
proof -
  have inv: "ledger_inv (run m deployed xs) (ballots m deployed xs)"
    by (rule ledger_inv_run)
  have f: "unat (forVotes (proposals (run m deployed xs) ! (unat i - 1)))
             = shares_cast (\<lambda>c. c = 1) (ballots m deployed xs) i"
    and g: "unat (againstVotes (proposals (run m deployed xs) ! (unat i - 1)))
             = shares_cast (\<lambda>c. c = 2) (ballots m deployed xs) i"
    and d: "distinct (voters (ballots m deployed xs) i)"
    and v: "\<forall>a. voted (run m deployed xs) i a \<longleftrightarrow> a \<in> set (voters (ballots m deployed xs) i)"
    using inv assms by (simp_all add: ledger_inv_def)
  have "set (voters (ballots m deployed xs) i) = {a. voted (run m deployed xs) i a}"
    using v by auto
  then show ?thesis
    using f g d shares_cast_split [of "ballots m deployed xs" i] by simp
qed

theorem tally_within_cast_shares_witness:
  "(0::uint256) < 1
   \<and> unat (1::uint256) \<le> length (proposals (run example_mods deployed (setup_txs @ scenario_votes)))
   \<and> unat (forVotes (proposals (run example_mods deployed (setup_txs @ scenario_votes)) ! 0)) = 50000
   \<and> unat (againstVotes (proposals (run example_mods deployed (setup_txs @ scenario_votes)) ! 0)) = 30000
   \<and> shares_cast (\<lambda>c. True) (ballots example_mods deployed (setup_txs @ scenario_votes)) 1 = 100000
   \<and> shares_cast (\<lambda>c. c \<noteq> 1 \<and> c \<noteq> 2) (ballots example_mods deployed (setup_txs @ scenario_votes)) 1 = 20000
   \<and> voters (ballots example_mods deployed (setup_txs @ scenario_votes)) 1 = [10, 11, 12]
   \<and> (50000::nat) + 30000 \<le> 100000"
proof -
  let ?xs = "setup_txs @ scenario_votes"
  have a: "(0::uint256) < 1" by simp
  have r: "proposals (run example_mods deployed ?xs) =
             [(new_proposal 1 1000 0 ''Q4 2024 Budget Approval'' 7)
                \<lparr>forVotes := 50000, againstVotes := 30000\<rparr>]"
    by (simp add: example_defs)
  have b: "unat (1::uint256) \<le> length (proposals (run example_mods deployed ?xs))"
    by (simp add: r)
  have bs: "ballots example_mods deployed ?xs =
              [(1, 10, 50000, 1), (1, 11, 30000, 2), (1, 12, 20000, 0)]"
    by (simp add: example_defs)
  have c: "shares_cast (\<lambda>c. True) (ballots example_mods deployed ?xs) 1 = 100000"
    "shares_cast (\<lambda>c. c \<noteq> 1 \<and> c \<noteq> 2) (ballots example_mods deployed ?xs) 1 = 20000"
    "voters (ballots example_mods deployed ?xs) 1 = [10, 11, 12]"
    by (simp_all add: bs shares_cast_def voters_def)
  have f: "unat (forVotes (proposals (run example_mods deployed ?xs) ! 0)) = 50000"
    "unat (againstVotes (proposals (run example_mods deployed ?xs) ! 0)) = 30000"
    by (simp_all add: r)
  show ?thesis
    using a b c f tally_within_cast_shares [OF a b] by simp
qed

section \<open>The scenario of the tutorial\<close>

text \<open>
  C8. On a proposal with threshold 50 and no votes, let three shareholders with 50000,
  30000 and 20000 shares cast one vote each: for, against and abstain. Then \<open>getResults\<close>
  returns \<open>(50000, 30000, true)\<close>: the for-percentage, 62, meets the threshold.
\<close>

theorem scenario_results:
  assumes "threshold (proposals s ! (unat i - 1)) = 50"
    and "forVotes (proposals s ! (unat i - 1)) = 0"
    and "againstVotes (proposals s ! (unat i - 1)) = 0"
    and "shares (shareholders s a) = 50000"
    and "shares (shareholders s b) = 30000"
    and "shares (shareholders s c) = 20000"
    and "vote m s a t1 i 1 = Inr s1"
    and "vote m s1 b t2 i 2 = Inr s2"
    and "vote m s2 c t3 i 0 = Inr s3"
  shows "getResults s3 i = Inr (50000, 30000, True)"
proof -
  let ?k = "unat i - 1"
  have i: "0 < i" "unat i \<le> length (proposals s)"
    using vote_Inr_pre(2,3) [OF assms(7)] by simp_all
  have k: "?k < length (proposals s)"
    using i by (rule valid_index)
  have sh1: "shareholders s1 = shareholders s" and l1: "length (proposals s1) = length (proposals s)"
    using vote_Inr_voted [OF assms(7)] by simp_all
  have sh2: "shareholders s2 = shareholders s1" and l2: "length (proposals s2) = length (proposals s1)"
    using vote_Inr_voted [OF assms(8)] by simp_all
  have l3: "length (proposals s3) = length (proposals s2)"
    using vote_Inr_voted [OF assms(9)] by simp
  have p1: "proposals s1 ! ?k = (proposals s ! ?k)\<lparr>forVotes := 50000\<rparr>"
    using vote_Inr_tally(1) [OF assms(7)] k assms(2,4) by simp
  have p2: "proposals s2 ! ?k = (proposals s ! ?k)\<lparr>forVotes := 50000, againstVotes := 30000\<rparr>"
    using vote_Inr_tally(1) [OF assms(8)] k l1 p1 assms(3,5) sh1 by simp
  have p3: "proposals s3 ! ?k = (proposals s ! ?k)\<lparr>forVotes := 50000, againstVotes := 30000\<rparr>"
    using vote_Inr_tally(1) [OF assms(9)] p2 by simp
  have "for_percentage (proposals s3 ! ?k) = 62"
    using p3 by (simp add: for_percentage_def)
  then show ?thesis
    using i assms(1) l1 l2 l3 p3 by (simp add: getResults_def)
qed

theorem scenario_results_witness:
  "vote example_mods example_state 10 2000 1 1 = Inr (run example_mods example_state [(10, 2000, Vote 1 1)])
   \<and> vote example_mods (run example_mods example_state [(10, 2000, Vote 1 1)]) 11 3000 1 2 =
       Inr (run example_mods example_state [(10, 2000, Vote 1 1), (11, 3000, Vote 1 2)])
   \<and> vote example_mods (run example_mods example_state [(10, 2000, Vote 1 1), (11, 3000, Vote 1 2)])
         12 4000 1 0 =
       Inr (run example_mods example_state scenario_votes)
   \<and> getResults (run example_mods example_state scenario_votes) 1 = Inr (50000, 30000, True)"
proof -
  have t: "threshold (proposals example_state ! (unat (1::uint256) - 1)) = 50"
    "forVotes (proposals example_state ! (unat (1::uint256) - 1)) = 0"
    "againstVotes (proposals example_state ! (unat (1::uint256) - 1)) = 0"
    "shares (shareholders example_state 10) = 50000"
    "shares (shareholders example_state 11) = 30000"
    "shares (shareholders example_state 12) = 20000"
    by (simp_all add: example_state_def new_proposal_def)
  have v1: "vote example_mods example_state 10 2000 1 1 =
              Inr (run example_mods example_state [(10, 2000, Vote 1 1)])"
    by (simp add: example_defs)
  have v2: "vote example_mods (run example_mods example_state [(10, 2000, Vote 1 1)]) 11 3000 1 2 =
       Inr (run example_mods example_state [(10, 2000, Vote 1 1), (11, 3000, Vote 1 2)])"
    by (simp add: example_defs)
  have v3: "vote example_mods
         (run example_mods example_state [(10, 2000, Vote 1 1), (11, 3000, Vote 1 2)]) 12 4000 1 0 =
       Inr (run example_mods example_state scenario_votes)"
    by (simp add: example_defs)
  show ?thesis
    using v1 v2 v3 scenario_results [OF t v1 v2 v3] by simp
qed

section \<open>The voting page\<close>

text \<open>
  C10. \<open>handleVote\<close> of the mock front-end never calls the contract: for every proposal
  id and choice, whether the wallet is connected or not and whether a statement of the
  \<open>try\<close> block throws or not, none of its effects is a contract call, so the ledger is
  after the handler what it was before. Every effect is a toast, the simulated delay, or
  an update of the page's own state (with the console message of the \<open>catch\<close> block);
  when nothing throws, the handler shows the loading toast, waits 2000 ms and shows the
  success toast.
\<close>

theorem handleVote_no_contract_call:
  "filter is_contract_call (handleVote conn loaded labels thrown pid ch) = []
   \<and> ledger_after m a t enc (handleVote conn loaded labels thrown pid ch) g = g
   \<and> list_all (\<lambda>e. is_toast_or_wait e \<or> is_page_state e)
       (handleVote conn loaded labels thrown pid ch)
   \<and> handleVote True True labels None pid ch =
       [SetVotingInProgress (Some pid),
        ToastLoading (''Submitting '' @ labels ch @ '' vote...''),
        Timeout 2000,
        ToastSuccess (''Vote submitted successfully! ('' @ labels ch @ '')''),
        SetShowVoteModal False, SetSelectedProposal None,
        SetVotingInProgress None]"
proof -
  let ?es = "handleVote conn loaded labels thrown pid ch"
  have all: "list_all (\<lambda>e. \<not> is_contract_call e \<and> (is_toast_or_wait e \<or> is_page_state e)) ?es"
    by (rule handleVote_effects)
  have no: "list_all (\<lambda>e. \<not> is_contract_call e) ?es"
    using all by (simp add: list_all_iff)
  have c1: "filter is_contract_call ?es = []"
    using no by (simp add: list_all_iff filter_empty_conv)
  have c2: "ledger_after m a t enc ?es g = g"
    by (rule ledger_after_no_call [OF no])
  have c3: "list_all (\<lambda>e. is_toast_or_wait e \<or> is_page_state e) ?es"
    using all by (simp add: list_all_iff)
  show ?thesis
    using c1 c2 c3 by (simp add: handleVote_def try_block_def)
qed

theorem handleVote_no_contract_call_witness:
  "\<not> (\<not> True \<or> \<not> True)
   \<and> handleVote True True example_labels None 1 FOR =
       [SetVotingInProgress (Some 1),
        ToastLoading ''Submitting For vote...'',
        Timeout 2000,
        ToastSuccess ''Vote submitted successfully! (For)'',
        SetShowVoteModal False, SetSelectedProposal None,
        SetVotingInProgress None]
   \<and> filter is_contract_call (handleVote True True example_labels None 1 FOR) = []
   \<and> ledger_after example_mods 10 2000 example_enc
        (handleVote True True example_labels None 1 FOR) example_state = example_state
   \<and> filter is_contract_call (handleVote True True example_labels (Some (2, [])) 1 FOR) = []
   \<and> handleVote True True example_labels (Some (2, [])) 1 FOR =
       [SetVotingInProgress (Some 1),
        ToastLoading ''Submitting For vote...'',
        Timeout 2000,
        ConsoleError ''Voting error:'',
        ToastError ''Voting failed: Unknown error'',
        SetVotingInProgress None]"
proof -
  have e: "handleVote True True example_labels (Some (2, [])) 1 FOR =
       [SetVotingInProgress (Some 1),
        ToastLoading ''Submitting For vote...'',
        Timeout 2000,
        ConsoleError ''Voting error:'',
        ToastError ''Voting failed: Unknown error'',
        SetVotingInProgress None]"
    by (simp add: handleVote_def try_block_def example_labels_def)
  show ?thesis
    using e
      handleVote_no_contract_call [of True True example_labels None 1 FOR
        example_mods 10 2000 example_enc example_state]
      handleVote_no_contract_call [of True True example_labels "Some (2, [])" 1 FOR
        example_mods 10 2000 example_enc example_state]
    by (simp add: example_labels_def)
qed

end
